theory Spec2Isabelle
  imports Main
begin

section \<open>Values, abrupt completion and the object store\<close>

text \<open>
  The library is TypeScript; at run time its functions receive arbitrary JavaScript
  values. A value is a primitive or a reference to an object in the store, so that
  "the same instance" is equality of references. Numbers are abstracted to integers:
  the library only tests values for nullness, type tag and property presence.

  The repository holds two revisions of \<^verbatim>\<open>result.ts\<close> and \<^verbatim>\<open>async.ts\<close>. This development
  follows the one in which Results are told apart by the presence of the \<^verbatim>\<open>value\<close> and
  \<^verbatim>\<open>error\<close> fields, which is the one that has \<open>liftOutcome\<close> and \<open>isAsyncResult\<close>.
\<close>

type_synonym ref = nat

datatype jsval =
    JUndefined
  | JNull
  | JBool bool
  | JNum int
  | JStr string
  | JRef ref

text \<open>
  A \<^verbatim>\<open>throw v\<close> statement completes with \<open>Raised v\<close>; \<open>TypeError\<close> is the error
  the runtime itself throws (property access on null or undefined, \<^verbatim>\<open>in\<close> applied to
  a primitive).
\<close>

datatype exn = Raised jsval | TypeError

datatype pstate = Unsettled | Fulfilled jsval | Rejected exn

text \<open>
  Objects: plain objects with their data properties in insertion order, arrays, functions,
  \<^verbatim>\<open>Error\<close> instances with their message, and promises with their internal state.
  \<open>Computed has get\<close> is an object whose property lookups run code of its author: an
  object with accessor properties, or a \<^verbatim>\<open>Proxy\<close> with \<^verbatim>\<open>has\<close> and \<^verbatim>\<open>get\<close> traps.
  \<open>has k\<close> is how \<^verbatim>\<open>k in o\<close> completes and \<open>get k\<close> how \<^verbatim>\<open>o.k\<close> completes; either
  may throw.
\<close>

datatype obj =
    Plain "(string \<times> jsval) list"
  | Arr "jsval list"
  | Func
  | ErrorObj string
  | PromiseObj pstate
  | Computed "string \<Rightarrow> exn + bool" "string \<Rightarrow> exn + jsval"

record store =
  objs :: "ref \<Rightarrow> obj"
  fresh :: ref

definition alloc :: "obj \<Rightarrow> store \<Rightarrow> ref \<times> store" where
  "alloc ob s = (fresh s, s\<lparr>objs := (objs s)(fresh s := ob), fresh := Suc (fresh s)\<rparr>)"

definition empty_store :: store where
  "empty_store = \<lparr>objs = (\<lambda>_. Plain []), fresh = 0\<rparr>"

subsection \<open>The operators the library uses\<close>

text \<open>\<^verbatim>\<open>v == null\<close>: true for null and undefined only.\<close>

definition loose_null :: "jsval \<Rightarrow> bool" where
  "loose_null v = (v = JNull \<or> v = JUndefined)"

fun typeof :: "store \<Rightarrow> jsval \<Rightarrow> string" where
  "typeof s JUndefined = ''undefined''"
| "typeof s JNull = ''object''"
| "typeof s (JBool b) = ''boolean''"
| "typeof s (JNum n) = ''number''"
| "typeof s (JStr t) = ''string''"
| "typeof s (JRef r) = (case objs s r of Func \<Rightarrow> ''function'' | _ \<Rightarrow> ''object'')"

text \<open>
  Property presence and property read on an object with data properties only. Only the
  names \<^verbatim>\<open>value\<close>, \<^verbatim>\<open>error\<close> and \<^verbatim>\<open>status\<close> are ever asked for; arrays, functions,
  errors and promises (and their prototypes) have no property of these names.
\<close>

fun has_prop :: "obj \<Rightarrow> string \<Rightarrow> bool" where
  "has_prop (Plain ps) k = (k \<in> set (map fst ps))"
| "has_prop ob k = False"

fun prop_of :: "obj \<Rightarrow> string \<Rightarrow> jsval" where
  "prop_of (Plain ps) k = (case map_of ps k of Some v \<Rightarrow> v | None \<Rightarrow> JUndefined)"
| "prop_of ob k = JUndefined"

text \<open>
  \<^verbatim>\<open>k in v\<close> throws a TypeError unless \<open>v\<close> is an object; on an object it completes as
  the object's own lookup does, which throws when a \<^verbatim>\<open>has\<close> trap throws.
\<close>

fun js_in :: "store \<Rightarrow> string \<Rightarrow> jsval \<Rightarrow> exn + bool" where
  "js_in s k (JRef r) =
     (case objs s r of
        Computed has get \<Rightarrow> has k
      | ob \<Rightarrow> Inr (has_prop ob k))"
| "js_in s k v = Inl TypeError"

text \<open>
  \<^verbatim>\<open>v.k\<close> throws a TypeError on null and undefined; other primitives give undefined; on
  an object it completes as the object's own lookup does, which throws when a getter or
  a \<^verbatim>\<open>get\<close> trap throws.
\<close>

fun get_prop :: "store \<Rightarrow> jsval \<Rightarrow> string \<Rightarrow> exn + jsval" where
  "get_prop s JUndefined k = Inl TypeError"
| "get_prop s JNull k = Inl TypeError"
| "get_prop s (JRef r) k =
     (case objs s r of
        Computed has get \<Rightarrow> get k
      | ob \<Rightarrow> Inr (prop_of ob k))"
| "get_prop s v k = Inr JUndefined"

text \<open>Short-circuit \<^verbatim>\<open>&&\<close> and \<^verbatim>\<open>||\<close> on boolean operands that may throw.\<close>

definition andalso :: "(exn + bool) \<Rightarrow> (exn + bool) \<Rightarrow> exn + bool" where
  "andalso a b = (case a of Inl x \<Rightarrow> Inl x | Inr t \<Rightarrow> (if t then b else Inr False))"

definition orelse :: "(exn + bool) \<Rightarrow> (exn + bool) \<Rightarrow> exn + bool" where
  "orelse a b = (case a of Inl x \<Rightarrow> Inl x | Inr t \<Rightarrow> (if t then Inr True else b))"

section \<open>result.ts: constructors and predicates\<close>

definition isSuccess :: "store \<Rightarrow> jsval \<Rightarrow> exn + bool" where
  "isSuccess s result =
     andalso (Inr (\<not> loose_null result))
       (andalso (Inr (typeof s result = ''object'')) (js_in s ''value'' result))"

definition isFailure :: "store \<Rightarrow> jsval \<Rightarrow> exn + bool" where
  "isFailure s result =
     andalso (Inr (\<not> loose_null result))
       (andalso (Inr (typeof s result = ''object'')) (js_in s ''error'' result))"

definition success :: "jsval \<Rightarrow> store \<Rightarrow> jsval \<times> store" where
  "success v s = (case alloc (Plain [(''value'', v)]) s of (r, s') \<Rightarrow> (JRef r, s'))"

definition failure :: "jsval \<Rightarrow> store \<Rightarrow> jsval \<times> store" where
  "failure e s = (case alloc (Plain [(''error'', e)]) s of (r, s') \<Rightarrow> (JRef r, s'))"

type_synonym 'a comp = "store \<Rightarrow> (exn + 'a) \<times> store"

definition unwrap :: "store \<Rightarrow> jsval \<Rightarrow> exn + jsval" where
  "unwrap s result =
     (case isSuccess s result of
        Inl x \<Rightarrow> Inl x
      | Inr True \<Rightarrow> get_prop s result ''value''
      | Inr False \<Rightarrow>
          (case get_prop s result ''error'' of
             Inl x \<Rightarrow> Inl x
           | Inr e \<Rightarrow> Inl (Raised e)))"

text \<open>
  The callback of \<open>map\<close> is any computation on the store: it may allocate, mutate
  (a call-counting spy) or throw.
\<close>

definition map_result :: "jsval \<Rightarrow> (jsval \<Rightarrow> jsval comp) \<Rightarrow> jsval comp" where
  "map_result result fn s =
     (case isSuccess s result of
        Inl x \<Rightarrow> (Inl x, s)
      | Inr True \<Rightarrow>
          (case get_prop s result ''value'' of
             Inl x \<Rightarrow> (Inl x, s)
           | Inr v \<Rightarrow>
               (case fn v s of
                  (Inl x, s1) \<Rightarrow> (Inl x, s1)
                | (Inr u, s1) \<Rightarrow> (case success u s1 of (r, s2) \<Rightarrow> (Inr r, s2))))
      | Inr False \<Rightarrow> (Inr result, s))"

section \<open>result.ts: aggregation\<close>

text \<open>\<^verbatim>\<open>a.push(v)\<close> on the array stored at \<open>a\<close>.\<close>

definition push :: "ref \<Rightarrow> jsval \<Rightarrow> store \<Rightarrow> store" where
  "push a v s =
     s\<lparr>objs := (objs s)(a := (case objs s a of Arr xs \<Rightarrow> Arr (xs @ [v]) | ob \<Rightarrow> ob))\<rparr>"

text \<open>
  The \<^verbatim>\<open>for (const item of many)\<close> loops; \<open>many\<close> is the sequence of elements of the
  argument array in index order, \<open>values\<close> and \<open>errors\<close> are the local arrays.
\<close>

fun all_loop :: "ref \<Rightarrow> jsval list \<Rightarrow> jsval comp" where
  "all_loop values [] s = (case success (JRef values) s of (r, s') \<Rightarrow> (Inr r, s'))"
| "all_loop values (item # rest) s =
     (case isSuccess s item of
        Inl x \<Rightarrow> (Inl x, s)
      | Inr False \<Rightarrow> (Inr item, s)
      | Inr True \<Rightarrow>
          (case get_prop s item ''value'' of
             Inl x \<Rightarrow> (Inl x, s)
           | Inr v \<Rightarrow> all_loop values rest (push values v s)))"

definition all :: "jsval list \<Rightarrow> jsval comp" where
  "all many s = (case alloc (Arr []) s of (values, s1) \<Rightarrow> all_loop values many s1)"

fun any_loop :: "ref \<Rightarrow> jsval list \<Rightarrow> jsval comp" where
  "any_loop errors [] s = (case failure (JRef errors) s of (r, s') \<Rightarrow> (Inr r, s'))"
| "any_loop errors (item # rest) s =
     (case isSuccess s item of
        Inl x \<Rightarrow> (Inl x, s)
      | Inr True \<Rightarrow> (Inr item, s)
      | Inr False \<Rightarrow>
          (case get_prop s item ''error'' of
             Inl x \<Rightarrow> (Inl x, s)
           | Inr e \<Rightarrow> any_loop errors rest (push errors e s)))"

definition any :: "jsval list \<Rightarrow> jsval comp" where
  "any many s = (case alloc (Arr []) s of (errors, s1) \<Rightarrow> any_loop errors many s1)"

section \<open>result.ts: the Node callback adapter\<close>

text \<open>
  \<^verbatim>\<open>new Promise(executor)\<close>: the executor runs at once with the promise's resolve
  function; a throw of the executor rejects the promise. Resolving or rejecting a settled
  promise does nothing. The library resolves with Result objects only, which are not
  thenables, so resolving fulfils.
\<close>

definition resolve :: "ref \<Rightarrow> jsval \<Rightarrow> unit comp" where
  "resolve p v s =
     (Inr (),
      (case objs s p of
         PromiseObj Unsettled \<Rightarrow> s\<lparr>objs := (objs s)(p := PromiseObj (Fulfilled v))\<rparr>
       | _ \<Rightarrow> s))"

definition reject :: "ref \<Rightarrow> exn \<Rightarrow> store \<Rightarrow> store" where
  "reject p x s =
     (case objs s p of
        PromiseObj Unsettled \<Rightarrow> s\<lparr>objs := (objs s)(p := PromiseObj (Rejected x))\<rparr>
      | _ \<Rightarrow> s)"

definition new_Promise :: "((jsval \<Rightarrow> unit comp) \<Rightarrow> unit comp) \<Rightarrow> store \<Rightarrow> jsval \<times> store" where
  "new_Promise executor s =
     (case alloc (PromiseObj Unsettled) s of
        (p, s1) \<Rightarrow>
          (case executor (resolve p) s1 of
             (Inl x, s2) \<Rightarrow> (JRef p, reject p x s2)
           | (Inr u, s2) \<Rightarrow> (JRef p, s2)))"

definition liftOutcome :: "(jsval \<Rightarrow> unit comp) \<Rightarrow> jsval \<Rightarrow> jsval \<Rightarrow> unit comp" where
  "liftOutcome cb error result s =
     (if \<not> loose_null error
      then (case failure error s of (f, s1) \<Rightarrow> cb f s1)
      else (case success result s of (r, s1) \<Rightarrow> cb r s1))"

definition fromNodeCallback ::
  "((jsval \<Rightarrow> jsval \<Rightarrow> unit comp) \<Rightarrow> unit comp) \<Rightarrow> store \<Rightarrow> jsval \<times> store" where
  "fromNodeCallback fn =
     new_Promise (\<lambda>resolve. fn (liftOutcome (\<lambda>result. resolve result)))"

text \<open>
  A caller-supplied \<open>fn\<close>, described by what it does with the callback during its
  synchronous run: it invokes it with a pair some number of times, and ends by returning
  or by throwing.
\<close>

datatype fn_run = Return | Raise jsval | Invoke jsval jsval fn_run

fun run_fn :: "fn_run \<Rightarrow> (jsval \<Rightarrow> jsval \<Rightarrow> unit comp) \<Rightarrow> unit comp" where
  "run_fn Return cb s = (Inr (), s)"
| "run_fn (Raise e) cb s = (Inl (Raised e), s)"
| "run_fn (Invoke error v rest) cb s =
     (case cb error v s of
        (Inl x, s1) \<Rightarrow> (Inl x, s1)
      | (Inr u, s1) \<Rightarrow> run_fn rest cb s1)"

section \<open>async.ts\<close>

definition isPending :: "store \<Rightarrow> jsval \<Rightarrow> exn + bool" where
  "isPending s result =
     andalso (Inr (\<not> loose_null result))
       (andalso (Inr (typeof s result = ''object''))
          (andalso (js_in s ''status'' result)
             (case get_prop s result ''status'' of
                Inl x \<Rightarrow> Inl x
              | Inr v \<Rightarrow> Inr (v = JStr ''pending''))))"

definition isResult :: "store \<Rightarrow> jsval \<Rightarrow> exn + bool" where
  "isResult s result = orelse (isSuccess s result) (isFailure s result)"

definition isAsyncResult :: "store \<Rightarrow> jsval \<Rightarrow> exn + bool" where
  "isAsyncResult s result = orelse (isPending s result) (isResult s result)"

section \<open>error.ts\<close>

definition new_Error :: "string \<Rightarrow> store \<Rightarrow> jsval \<times> store" where
  "new_Error msg s = (case alloc (ErrorObj msg) s of (r, s') \<Rightarrow> (JRef r, s'))"

text \<open>The message parameter is optional; \<open>None\<close> is the omitted argument.\<close>

definition must :: "jsval \<Rightarrow> string option \<Rightarrow> jsval comp" where
  "must v errorMessage s =
     (if loose_null v
      then (case new_Error (case errorMessage of None \<Rightarrow> ''Value is undefined or null''
                                               | Some m \<Rightarrow> m) s of
              (e, s') \<Rightarrow> (Inl (Raised e), s'))
      else (Inr v, s))"

definition strictMust :: "jsval \<Rightarrow> string option \<Rightarrow> jsval comp" where
  "strictMust v errorMessage s =
     (if v = JUndefined
      then (case new_Error (case errorMessage of None \<Rightarrow> ''Value is undefined''
                                               | Some m \<Rightarrow> m) s of
              (e, s') \<Rightarrow> (Inl (Raised e), s'))
      else (Inr v, s))"

section \<open>Vocabulary of the statements\<close>

text \<open>
  A well-formed Result in a store: an allocated plain object that carries \<^verbatim>\<open>value\<close> and
  not \<^verbatim>\<open>error\<close> (a Success), or \<^verbatim>\<open>error\<close> and not \<^verbatim>\<open>value\<close> (a Failure).
\<close>

fun Success_obj :: "store \<Rightarrow> jsval \<Rightarrow> bool" where
  "Success_obj s (JRef r) =
     (r < fresh s \<and> has_prop (objs s r) ''value'' \<and> \<not> has_prop (objs s r) ''error'')"
| "Success_obj s v = False"

fun Failure_obj :: "store \<Rightarrow> jsval \<Rightarrow> bool" where
  "Failure_obj s (JRef r) =
     (r < fresh s \<and> has_prop (objs s r) ''error'' \<and> \<not> has_prop (objs s r) ''value'')"
| "Failure_obj s v = False"

fun the_value :: "store \<Rightarrow> jsval \<Rightarrow> jsval" where
  "the_value s (JRef r) = prop_of (objs s r) ''value''"
| "the_value s v = JUndefined"

fun the_error :: "store \<Rightarrow> jsval \<Rightarrow> jsval" where
  "the_error s (JRef r) = prop_of (objs s r) ''error''"
| "the_error s v = JUndefined"

text \<open>
  What an awaiter of \<open>p\<close> observes in store \<open>s\<close>: nothing yet (\<open>None\<close>) while the
  promise is unsettled, the fulfilment value, or the rejection reason thrown at the
  awaiter. Awaiting a value that is not a promise yields the value.
\<close>

fun await :: "store \<Rightarrow> jsval \<Rightarrow> (exn + jsval) option" where
  "await s (JRef r) =
     (case objs s r of
        PromiseObj Unsettled \<Rightarrow> None
      | PromiseObj (Fulfilled v) \<Rightarrow> Some (Inr v)
      | PromiseObj (Rejected x) \<Rightarrow> Some (Inl x)
      | _ \<Rightarrow> Some (Inr (JRef r)))"
| "await s v = Some (Inr v)"




text \<open>The store after \<^verbatim>\<open>success(1)\<close>, \<^verbatim>\<open>failure("x")\<close>, \<^verbatim>\<open>success(3)\<close>, at references 0, 1, 2.\<close>

definition three_results :: store where
  "three_results =
     snd (success (JNum 3) (snd (failure (JStr ''x'') (snd (success (JNum 1) empty_store)))))"

text \<open>The store after \<^verbatim>\<open>failure("a")\<close>, \<^verbatim>\<open>success(2)\<close>, \<^verbatim>\<open>failure("c")\<close>, at references 0, 1, 2.\<close>

definition three_results' :: store where
  "three_results' =
     snd (failure (JStr ''c'') (snd (success (JNum 2) (snd (failure (JStr ''a'') empty_store)))))"

section \<open>Properties\<close>

text \<open>
  C8. Every value built by \<^verbatim>\<open>success(v)\<close> satisfies \<open>isSuccess\<close> and not \<open>isFailure\<close>,
  every value built by \<^verbatim>\<open>failure(e)\<close> satisfies \<open>isFailure\<close> and not \<open>isSuccess\<close>,
  whatever the payload (null and undefined included): on constructed Results exactly one
  of the two predicates is true.
\<close>

theorem isSuccess_isFailure_partition:
  "(case success v s of (r, s') \<Rightarrow> isSuccess s' r = Inr True \<and> isFailure s' r = Inr False) \<and>
   (case failure e s of (r, s') \<Rightarrow> isSuccess s' r = Inr False \<and> isFailure s' r = Inr True)"
  by (simp add: success_def failure_def alloc_def isSuccess_def isFailure_def
      andalso_def loose_null_def)


text \<open>
  C6. \<^verbatim>\<open>unwrap(success(v))\<close> returns \<open>v\<close>; \<^verbatim>\<open>unwrap(failure(e))\<close> throws \<open>e\<close> itself:
  the thrown value is the payload (the same reference when it is an object), and no
  error object is allocated.
\<close>

theorem unwrap_constructed:
  "(case success v s of (r, s') \<Rightarrow> unwrap s' r = Inr v) \<and>
   (case failure e s of (r, s') \<Rightarrow> unwrap s' r = Inl (Raised e))"
  by (simp add: success_def failure_def alloc_def unwrap_def isSuccess_def
      andalso_def loose_null_def)

text \<open>
  C7. \<^verbatim>\<open>map(success(v), fn)\<close> runs \<open>fn\<close> on \<open>v\<close> and wraps what it returns in a new
  Success (a throw of \<open>fn\<close> propagates, as it does from \<^verbatim>\<open>success(fn(v))\<close>);
  \<^verbatim>\<open>map(failure(e), fn)\<close> returns the same reference and leaves the store as it was for
  every \<open>fn\<close>, so \<open>fn\<close> was not run.
\<close>

theorem map_result_constructed:
  "(case success v s of
      (r, s1) \<Rightarrow>
        map_result r fn s1 =
          (case fn v s1 of
             (Inl x, s2) \<Rightarrow> (Inl x, s2)
           | (Inr u, s2) \<Rightarrow> (case success u s2 of (r', s3) \<Rightarrow> (Inr r', s3)))) \<and>
   (case failure e s of (r, s1) \<Rightarrow> map_result r fn s1 = (Inr r, s1))"
  by (simp add: success_def failure_def alloc_def map_result_def isSuccess_def
      andalso_def loose_null_def)

text \<open>
  C9. \<open>must\<close> throws a new \<^verbatim>\<open>Error\<close> exactly on null and undefined, \<open>strictMust\<close>
  exactly on undefined; otherwise each returns its argument and leaves the store alone.
  Whether they throw differs exactly when the argument is null.
\<close>

theorem must_strictMust:
  "must v m s =
     (if v = JNull \<or> v = JUndefined
      then (Inl (Raised (JRef (fresh s))),
            snd (alloc (ErrorObj (case m of None \<Rightarrow> ''Value is undefined or null'' | Some t \<Rightarrow> t)) s))
      else (Inr v, s)) \<and>
   strictMust v m s =
     (if v = JUndefined
      then (Inl (Raised (JRef (fresh s))),
            snd (alloc (ErrorObj (case m of None \<Rightarrow> ''Value is undefined'' | Some t \<Rightarrow> t)) s))
      else (Inr v, s)) \<and>
   (isl (fst (must v m s)) \<noteq> isl (fst (strictMust v m' s'))) = (v = JNull)"
  by (simp add: must_def strictMust_def new_Error_def alloc_def loose_null_def)

text \<open>
  C10. On the empty list \<open>all\<close> returns a new Success holding a new empty array and
  \<open>any\<close> returns a new Failure holding a new empty array.
\<close>

theorem all_any_empty:
  "all [] s =
     (Inr (JRef (Suc (fresh s))),
      \<lparr>objs = (objs s)(fresh s := Arr [], Suc (fresh s) := Plain [(''value'', JRef (fresh s))]),
       fresh = Suc (Suc (fresh s))\<rparr>) \<and>
   any [] s =
     (Inr (JRef (Suc (fresh s))),
      \<lparr>objs = (objs s)(fresh s := Arr [], Suc (fresh s) := Plain [(''error'', JRef (fresh s))]),
       fresh = Suc (Suc (fresh s))\<rparr>)"
  by (simp add: all_def any_def success_def failure_def alloc_def)

subsection \<open>Classification of arbitrary values\<close>










lemma map_of_Some_key: "map_of ps k = Some x \<Longrightarrow> k \<in> fst ` set ps"
  by (metis map_of_eq_None_iff option.distinct(1))

lemma isAsyncResult_Plain:
  "objs s r = Plain ps \<Longrightarrow>
   isAsyncResult s (JRef r) =
     Inr (map_of ps ''status'' = Some (JStr ''pending'') \<or>
          ''value'' \<in> set (map fst ps) \<or> ''error'' \<in> set (map fst ps))"
  by (auto simp: isAsyncResult_def isResult_def isPending_def isSuccess_def isFailure_def
      orelse_def andalso_def loose_null_def map_of_eq_None_iff
      split: option.splits dest: map_of_Some_key)

subsection \<open>Aggregation\<close>

lemma has_prop_js_in: "has_prop (objs s r) k \<Longrightarrow> js_in s k (JRef r) = Inr True"
  by (cases "objs s r") simp_all

lemma has_prop_js_in_other:
  "has_prop (objs s r) k' \<Longrightarrow> js_in s k (JRef r) = Inr (has_prop (objs s r) k)"
  by (cases "objs s r") simp_all

lemma has_prop_get_prop:
  "has_prop (objs s r) k' \<Longrightarrow> get_prop s (JRef r) k = Inr (prop_of (objs s r) k)"
  by (cases "objs s r") simp_all

lemma has_prop_typeof: "has_prop (objs s r) k \<Longrightarrow> typeof s (JRef r) = ''object''"
  by (cases "objs s r") simp_all

lemma Success_obj_isSuccess: "Success_obj s v \<Longrightarrow> isSuccess s v = Inr True"
  by (cases v)
    (auto simp add: isSuccess_def andalso_def loose_null_def has_prop_js_in has_prop_typeof
      simp del: js_in.simps typeof.simps)

lemma Failure_obj_isSuccess: "Failure_obj s v \<Longrightarrow> isSuccess s v = Inr False"
  by (cases v)
    (auto simp add: isSuccess_def andalso_def loose_null_def has_prop_typeof
      has_prop_js_in_other [where k' = "''error''"] simp del: js_in.simps typeof.simps)

lemma Success_obj_get: "Success_obj s v \<Longrightarrow> get_prop s v ''value'' = Inr (the_value s v)"
  by (cases v) (auto simp add: has_prop_get_prop [where k' = "''value''"] simp del: get_prop.simps)

lemma Failure_obj_get: "Failure_obj s v \<Longrightarrow> get_prop s v ''error'' = Inr (the_error s v)"
  by (cases v) (auto simp add: has_prop_get_prop [where k' = "''error''"] simp del: get_prop.simps)

lemma Success_obj_upd:
  "Success_obj s v \<Longrightarrow> v \<noteq> JRef a \<Longrightarrow> Success_obj (s\<lparr>objs := (objs s)(a := ob)\<rparr>) v"
  by (cases v) auto

lemma Failure_obj_upd:
  "Failure_obj s v \<Longrightarrow> v \<noteq> JRef a \<Longrightarrow> Failure_obj (s\<lparr>objs := (objs s)(a := ob)\<rparr>) v"
  by (cases v) auto

lemma the_value_upd:
  "v \<noteq> JRef a \<Longrightarrow> the_value (s\<lparr>objs := (objs s)(a := ob)\<rparr>) v = the_value s v"
  by (cases v) auto

lemma the_error_upd:
  "v \<noteq> JRef a \<Longrightarrow> the_error (s\<lparr>objs := (objs s)(a := ob)\<rparr>) v = the_error s v"
  by (cases v) auto

lemma push_Arr: "objs s a = Arr acc \<Longrightarrow> push a v s = s\<lparr>objs := (objs s)(a := Arr (acc @ [v]))\<rparr>"
  by (simp add: push_def)

lemma store_upd_same: "objs s a = ob \<Longrightarrow> s\<lparr>objs := (objs s)(a := ob)\<rparr> = s"
  by (cases s) auto

lemma all_loop_successes:
  "objs s a = Arr acc \<Longrightarrow> list_all (\<lambda>v. Success_obj s v \<and> v \<noteq> JRef a) many \<Longrightarrow>
   all_loop a many s =
     (case success (JRef a) (s\<lparr>objs := (objs s)(a := Arr (acc @ map (the_value s) many))\<rparr>) of
        (r, s') \<Rightarrow> (Inr r, s'))"
proof (induction many arbitrary: s acc)
  case Nil
  have eq: "s\<lparr>objs := (objs s)(a := Arr acc)\<rparr> = s"
    using Nil.prems(1) by (rule store_upd_same)
  show ?case unfolding list.map append_Nil2 eq by simp
next
  case (Cons item rest)
  let ?s1 = "s\<lparr>objs := (objs s)(a := Arr (acc @ [the_value s item]))\<rparr>"
  from Cons.prems have item: "Success_obj s item" "item \<noteq> JRef a"
    and rest: "list_all (\<lambda>v. Success_obj s v \<and> v \<noteq> JRef a) rest" by simp_all
  have rest1: "list_all (\<lambda>v. Success_obj ?s1 v \<and> v \<noteq> JRef a) rest"
    using rest by (simp add: list_all_iff Success_obj_upd)
  have vals: "map (the_value ?s1) rest = map (the_value s) rest"
    using rest by (simp add: list_all_iff the_value_upd)
  have "all_loop a (item # rest) s = all_loop a rest ?s1"
    using item Cons.prems(1) by (simp add: Success_obj_isSuccess Success_obj_get push_Arr)
  also have "\<dots> = (case success (JRef a)
        (?s1\<lparr>objs := (objs ?s1)(a := Arr ((acc @ [the_value s item]) @ map (the_value ?s1) rest))\<rparr>) of
        (r, s') \<Rightarrow> (Inr r, s'))"
    by (rule Cons.IH) (simp_all add: rest1)
  also have "?s1\<lparr>objs := (objs ?s1)(a := Arr ((acc @ [the_value s item]) @ map (the_value ?s1) rest))\<rparr>
      = s\<lparr>objs := (objs s)(a := Arr (acc @ map (the_value s) (item # rest)))\<rparr>"
    by (simp add: vals)
  finally show ?case .
qed

lemma all_loop_first_failure:
  "objs s a = Arr acc \<Longrightarrow> list_all (\<lambda>v. Success_obj s v \<and> v \<noteq> JRef a) pre \<Longrightarrow>
   Failure_obj s f \<Longrightarrow> f \<noteq> JRef a \<Longrightarrow>
   all_loop a (pre @ f # post) s =
     (Inr f, s\<lparr>objs := (objs s)(a := Arr (acc @ map (the_value s) pre))\<rparr>)"
proof (induction pre arbitrary: s acc)
  case Nil
  have eq: "s\<lparr>objs := (objs s)(a := Arr acc)\<rparr> = s"
    using Nil.prems(1) by (rule store_upd_same)
  show ?case unfolding list.map append_Nil2 append_Nil eq
    using Nil.prems(3) by (simp add: Failure_obj_isSuccess)
next
  case (Cons item rest)
  let ?s1 = "s\<lparr>objs := (objs s)(a := Arr (acc @ [the_value s item]))\<rparr>"
  from Cons.prems have item: "Success_obj s item" "item \<noteq> JRef a"
    and rest: "list_all (\<lambda>v. Success_obj s v \<and> v \<noteq> JRef a) rest" by simp_all
  have rest1: "list_all (\<lambda>v. Success_obj ?s1 v \<and> v \<noteq> JRef a) rest"
    using rest by (simp add: list_all_iff Success_obj_upd)
  have vals: "map (the_value ?s1) rest = map (the_value s) rest"
    using rest by (simp add: list_all_iff the_value_upd)
  have "all_loop a ((item # rest) @ f # post) s = all_loop a (rest @ f # post) ?s1"
    using item Cons.prems(1) by (simp add: Success_obj_isSuccess Success_obj_get push_Arr)
  also have "\<dots> = (Inr f,
      ?s1\<lparr>objs := (objs ?s1)(a := Arr ((acc @ [the_value s item]) @ map (the_value ?s1) rest))\<rparr>)"
  proof (rule Cons.IH)
    show "objs ?s1 a = Arr (acc @ [the_value s item])" by simp
    show "list_all (\<lambda>v. Success_obj ?s1 v \<and> v \<noteq> JRef a) rest" by (rule rest1)
    show "Failure_obj ?s1 f" using Cons.prems(3,4) by (rule Failure_obj_upd)
    show "f \<noteq> JRef a" by (rule Cons.prems(4))
  qed
  also have "?s1\<lparr>objs := (objs ?s1)(a := Arr ((acc @ [the_value s item]) @ map (the_value ?s1) rest))\<rparr>
      = s\<lparr>objs := (objs s)(a := Arr (acc @ map (the_value s) (item # rest)))\<rparr>"
    by (simp add: vals)
  finally show ?case .
qed

lemma Success_obj_alloc:
  "Success_obj s v \<Longrightarrow>
   Success_obj (snd (alloc ob s)) v \<and> v \<noteq> JRef (fresh s) \<and>
   the_value (snd (alloc ob s)) v = the_value s v \<and> the_error (snd (alloc ob s)) v = the_error s v"
  by (cases v) (auto simp: alloc_def)

lemma Failure_obj_alloc:
  "Failure_obj s v \<Longrightarrow>
   Failure_obj (snd (alloc ob s)) v \<and> v \<noteq> JRef (fresh s) \<and>
   the_value (snd (alloc ob s)) v = the_value s v \<and> the_error (snd (alloc ob s)) v = the_error s v"
  by (cases v) (auto simp: alloc_def)

lemma alloc_then_set:
  "(snd (alloc ob s))\<lparr>objs := (objs (snd (alloc ob s)))(fresh s := ob')\<rparr> = snd (alloc ob' s)"
  by (simp add: alloc_def)

lemma all_first_failure:
  assumes pre: "list_all (Success_obj s) pre" and f: "Failure_obj s f"
  shows "all (pre @ f # post) s = (Inr f, snd (alloc (Arr (map (the_value s) pre)) s))"
proof -
  let ?s1 = "snd (alloc (Arr []) s)"
  have 1: "objs ?s1 (fresh s) = Arr []" by (simp add: alloc_def)
  have 2: "list_all (\<lambda>v. Success_obj ?s1 v \<and> v \<noteq> JRef (fresh s)) pre"
    using pre by (simp add: list_all_iff Success_obj_alloc)
  have 3: "map (the_value ?s1) pre = map (the_value s) pre"
    using pre by (simp add: list_all_iff Success_obj_alloc)
  have 4: "Failure_obj ?s1 f" "f \<noteq> JRef (fresh s)"
    using f by (simp_all add: Failure_obj_alloc)
  have "all (pre @ f # post) s = all_loop (fresh s) (pre @ f # post) ?s1"
    by (simp add: all_def alloc_def)
  also have "\<dots> = (Inr f, ?s1\<lparr>objs := (objs ?s1)(fresh s := Arr ([] @ map (the_value ?s1) pre))\<rparr>)"
    using 1 2 4 by (rule all_loop_first_failure)
  finally show ?thesis by (simp only: 3 append_Nil alloc_then_set)
qed

lemma all_successes:
  assumes many: "list_all (Success_obj s) many"
  shows "all many s =
     (case alloc (Arr (map (the_value s) many)) s of
        (a, s1) \<Rightarrow> (case success (JRef a) s1 of (r, s2) \<Rightarrow> (Inr r, s2)))"
proof -
  let ?s1 = "snd (alloc (Arr []) s)"
  have 1: "objs ?s1 (fresh s) = Arr []" by (simp add: alloc_def)
  have 2: "list_all (\<lambda>v. Success_obj ?s1 v \<and> v \<noteq> JRef (fresh s)) many"
    using many by (simp add: list_all_iff Success_obj_alloc)
  have 3: "map (the_value ?s1) many = map (the_value s) many"
    using many by (simp add: list_all_iff Success_obj_alloc)
  have "all many s = all_loop (fresh s) many ?s1"
    by (simp add: all_def alloc_def)
  also have "\<dots> = (case success (JRef (fresh s))
        (?s1\<lparr>objs := (objs ?s1)(fresh s := Arr ([] @ map (the_value ?s1) many))\<rparr>) of
        (r, s') \<Rightarrow> (Inr r, s'))"
    using 1 2 by (rule all_loop_successes)
  also have "\<dots> = (case success (JRef (fresh s)) (snd (alloc (Arr (map (the_value s) many)) s)) of
        (r, s') \<Rightarrow> (Inr r, s'))"
    by (simp only: 3 append_Nil alloc_then_set)
  finally show ?thesis by (simp add: alloc_def)
qed

text \<open>
  C4. When the elements before the first Failure \<open>f\<close> are Successes, \<open>all\<close> returns
  \<open>f\<close> itself, whatever follows it, and only the local array was allocated. When every
  element is a Success, \<open>all\<close> returns a new Success holding a new array of the
  elements' values, in order.
\<close>

theorem all_spec:
  "(list_all (Success_obj s) pre \<and> Failure_obj s f \<longrightarrow>
      all (pre @ f # post) s = (Inr f, snd (alloc (Arr (map (the_value s) pre)) s))) \<and>
   (list_all (Success_obj s) many \<longrightarrow>
      all many s =
        (case alloc (Arr (map (the_value s) many)) s of
           (a, s1) \<Rightarrow> (case success (JRef a) s1 of (r, s2) \<Rightarrow> (Inr r, s2))))"
  using all_first_failure all_successes by blast

lemma three_results_eq:
  "three_results =
     \<lparr>objs = (\<lambda>_. Plain [])(0 := Plain [(''value'', JNum 1)], Suc 0 := Plain [(''error'', JStr ''x'')],
         Suc (Suc 0) := Plain [(''value'', JNum 3)]),
      fresh = Suc (Suc (Suc 0))\<rparr>"
  by (simp add: three_results_def success_def failure_def alloc_def empty_store_def)

theorem all_spec_witness:
  "list_all (Success_obj three_results) [JRef 0] \<and> Failure_obj three_results (JRef 1) \<and>
   fst (all [JRef 0, JRef 1, JRef 2] three_results) = Inr (JRef 1) \<and>
   objs (snd (all [JRef 0, JRef 1, JRef 2] three_results)) 3 = Arr [JNum 1] \<and>
   list_all (Success_obj three_results) [JRef 0, JRef 2] \<and>
   fst (all [JRef 0, JRef 2] three_results) = Inr (JRef 4) \<and>
   objs (snd (all [JRef 0, JRef 2] three_results)) 4 = Plain [(''value'', JRef 3)] \<and>
   objs (snd (all [JRef 0, JRef 2] three_results)) 3 = Arr [JNum 1, JNum 3]"
  using all_spec [of three_results "[JRef 0]" "JRef 1" "[JRef 2]" "[JRef 0, JRef 2]"]
  by (simp add: three_results_eq alloc_def success_def)

lemma any_loop_failures:
  "objs s a = Arr acc \<Longrightarrow> list_all (\<lambda>v. Failure_obj s v \<and> v \<noteq> JRef a) many \<Longrightarrow>
   any_loop a many s =
     (case failure (JRef a) (s\<lparr>objs := (objs s)(a := Arr (acc @ map (the_error s) many))\<rparr>) of
        (r, s') \<Rightarrow> (Inr r, s'))"
proof (induction many arbitrary: s acc)
  case Nil
  have eq: "s\<lparr>objs := (objs s)(a := Arr acc)\<rparr> = s"
    using Nil.prems(1) by (rule store_upd_same)
  show ?case unfolding list.map append_Nil2 eq by simp
next
  case (Cons item rest)
  let ?s1 = "s\<lparr>objs := (objs s)(a := Arr (acc @ [the_error s item]))\<rparr>"
  from Cons.prems have item: "Failure_obj s item" "item \<noteq> JRef a"
    and rest: "list_all (\<lambda>v. Failure_obj s v \<and> v \<noteq> JRef a) rest" by simp_all
  have rest1: "list_all (\<lambda>v. Failure_obj ?s1 v \<and> v \<noteq> JRef a) rest"
    using rest by (simp add: list_all_iff Failure_obj_upd)
  have errs: "map (the_error ?s1) rest = map (the_error s) rest"
    using rest by (simp add: list_all_iff the_error_upd)
  have "any_loop a (item # rest) s = any_loop a rest ?s1"
    using item Cons.prems(1) by (simp add: Failure_obj_isSuccess Failure_obj_get push_Arr)
  also have "\<dots> = (case failure (JRef a)
        (?s1\<lparr>objs := (objs ?s1)(a := Arr ((acc @ [the_error s item]) @ map (the_error ?s1) rest))\<rparr>) of
        (r, s') \<Rightarrow> (Inr r, s'))"
    by (rule Cons.IH) (simp_all add: rest1)
  also have "?s1\<lparr>objs := (objs ?s1)(a := Arr ((acc @ [the_error s item]) @ map (the_error ?s1) rest))\<rparr>
      = s\<lparr>objs := (objs s)(a := Arr (acc @ map (the_error s) (item # rest)))\<rparr>"
    by (simp add: errs)
  finally show ?case .
qed

lemma any_loop_first_success:
  "objs s a = Arr acc \<Longrightarrow> list_all (\<lambda>v. Failure_obj s v \<and> v \<noteq> JRef a) pre \<Longrightarrow>
   Success_obj s v \<Longrightarrow> v \<noteq> JRef a \<Longrightarrow>
   any_loop a (pre @ v # post) s =
     (Inr v, s\<lparr>objs := (objs s)(a := Arr (acc @ map (the_error s) pre))\<rparr>)"
proof (induction pre arbitrary: s acc)
  case Nil
  have eq: "s\<lparr>objs := (objs s)(a := Arr acc)\<rparr> = s"
    using Nil.prems(1) by (rule store_upd_same)
  show ?case unfolding list.map append_Nil2 append_Nil eq
    using Nil.prems(3) by (simp add: Success_obj_isSuccess)
next
  case (Cons item rest)
  let ?s1 = "s\<lparr>objs := (objs s)(a := Arr (acc @ [the_error s item]))\<rparr>"
  from Cons.prems have item: "Failure_obj s item" "item \<noteq> JRef a"
    and rest: "list_all (\<lambda>v. Failure_obj s v \<and> v \<noteq> JRef a) rest" by simp_all
  have rest1: "list_all (\<lambda>v. Failure_obj ?s1 v \<and> v \<noteq> JRef a) rest"
    using rest by (simp add: list_all_iff Failure_obj_upd)
  have errs: "map (the_error ?s1) rest = map (the_error s) rest"
    using rest by (simp add: list_all_iff the_error_upd)
  have "any_loop a ((item # rest) @ v # post) s = any_loop a (rest @ v # post) ?s1"
    using item Cons.prems(1) by (simp add: Failure_obj_isSuccess Failure_obj_get push_Arr)
  also have "\<dots> = (Inr v,
      ?s1\<lparr>objs := (objs ?s1)(a := Arr ((acc @ [the_error s item]) @ map (the_error ?s1) rest))\<rparr>)"
  proof (rule Cons.IH)
    show "objs ?s1 a = Arr (acc @ [the_error s item])" by simp
    show "list_all (\<lambda>v. Failure_obj ?s1 v \<and> v \<noteq> JRef a) rest" by (rule rest1)
    show "Success_obj ?s1 v" using Cons.prems(3,4) by (rule Success_obj_upd)
    show "v \<noteq> JRef a" by (rule Cons.prems(4))
  qed
  also have "?s1\<lparr>objs := (objs ?s1)(a := Arr ((acc @ [the_error s item]) @ map (the_error ?s1) rest))\<rparr>
      = s\<lparr>objs := (objs s)(a := Arr (acc @ map (the_error s) (item # rest)))\<rparr>"
    by (simp add: errs)
  finally show ?case .
qed

lemma any_first_success:
  assumes pre: "list_all (Failure_obj s) pre" and v: "Success_obj s v"
  shows "any (pre @ v # post) s = (Inr v, snd (alloc (Arr (map (the_error s) pre)) s))"
proof -
  let ?s1 = "snd (alloc (Arr []) s)"
  have 1: "objs ?s1 (fresh s) = Arr []" by (simp add: alloc_def)
  have 2: "list_all (\<lambda>v. Failure_obj ?s1 v \<and> v \<noteq> JRef (fresh s)) pre"
    using pre by (simp add: list_all_iff Failure_obj_alloc)
  have 3: "map (the_error ?s1) pre = map (the_error s) pre"
    using pre by (simp add: list_all_iff Failure_obj_alloc)
  have 4: "Success_obj ?s1 v" "v \<noteq> JRef (fresh s)"
    using v by (simp_all add: Success_obj_alloc)
  have "any (pre @ v # post) s = any_loop (fresh s) (pre @ v # post) ?s1"
    by (simp add: any_def alloc_def)
  also have "\<dots> = (Inr v, ?s1\<lparr>objs := (objs ?s1)(fresh s := Arr ([] @ map (the_error ?s1) pre))\<rparr>)"
    using 1 2 4 by (rule any_loop_first_success)
  finally show ?thesis by (simp only: 3 append_Nil alloc_then_set)
qed

lemma any_failures:
  assumes many: "list_all (Failure_obj s) many"
  shows "any many s =
     (case alloc (Arr (map (the_error s) many)) s of
        (a, s1) \<Rightarrow> (case failure (JRef a) s1 of (r, s2) \<Rightarrow> (Inr r, s2)))"
proof -
  let ?s1 = "snd (alloc (Arr []) s)"
  have 1: "objs ?s1 (fresh s) = Arr []" by (simp add: alloc_def)
  have 2: "list_all (\<lambda>v. Failure_obj ?s1 v \<and> v \<noteq> JRef (fresh s)) many"
    using many by (simp add: list_all_iff Failure_obj_alloc)
  have 3: "map (the_error ?s1) many = map (the_error s) many"
    using many by (simp add: list_all_iff Failure_obj_alloc)
  have "any many s = any_loop (fresh s) many ?s1"
    by (simp add: any_def alloc_def)
  also have "\<dots> = (case failure (JRef (fresh s))
        (?s1\<lparr>objs := (objs ?s1)(fresh s := Arr ([] @ map (the_error ?s1) many))\<rparr>) of
        (r, s') \<Rightarrow> (Inr r, s'))"
    using 1 2 by (rule any_loop_failures)
  also have "\<dots> = (case failure (JRef (fresh s)) (snd (alloc (Arr (map (the_error s) many)) s)) of
        (r, s') \<Rightarrow> (Inr r, s'))"
    by (simp only: 3 append_Nil alloc_then_set)
  finally show ?thesis by (simp add: alloc_def)
qed

text \<open>
  C5. When the elements before the first Success \<open>v\<close> are Failures, \<open>any\<close> returns
  \<open>v\<close> itself, whatever follows it, and only the local array was allocated. When every
  element is a Failure, \<open>any\<close> returns a new Failure holding a new array of the
  elements' errors, in order.
\<close>

theorem any_spec:
  "(list_all (Failure_obj s) pre \<and> Success_obj s v \<longrightarrow>
      any (pre @ v # post) s = (Inr v, snd (alloc (Arr (map (the_error s) pre)) s))) \<and>
   (list_all (Failure_obj s) many \<longrightarrow>
      any many s =
        (case alloc (Arr (map (the_error s) many)) s of
           (a, s1) \<Rightarrow> (case failure (JRef a) s1 of (r, s2) \<Rightarrow> (Inr r, s2))))"
  using any_first_success any_failures by blast

lemma three_results'_eq:
  "three_results' =
     \<lparr>objs = (\<lambda>_. Plain [])(0 := Plain [(''error'', JStr ''a'')], Suc 0 := Plain [(''value'', JNum 2)],
         Suc (Suc 0) := Plain [(''error'', JStr ''c'')]),
      fresh = Suc (Suc (Suc 0))\<rparr>"
  by (simp add: three_results'_def success_def failure_def alloc_def empty_store_def)

theorem any_spec_witness:
  "list_all (Failure_obj three_results') [JRef 0] \<and> Success_obj three_results' (JRef 1) \<and>
   fst (any [JRef 0, JRef 1, JRef 2] three_results') = Inr (JRef 1) \<and>
   objs (snd (any [JRef 0, JRef 1, JRef 2] three_results')) 3 = Arr [JStr ''a''] \<and>
   list_all (Failure_obj three_results') [JRef 0, JRef 2] \<and>
   fst (any [JRef 0, JRef 2] three_results') = Inr (JRef 4) \<and>
   objs (snd (any [JRef 0, JRef 2] three_results')) 4 = Plain [(''error'', JRef 3)] \<and>
   objs (snd (any [JRef 0, JRef 2] three_results')) 3 = Arr [JStr ''a'', JStr ''c'']"
  using any_spec [of three_results' "[JRef 0]" "JRef 1" "[JRef 2]" "[JRef 0, JRef 2]"]
  by (simp add: three_results'_eq alloc_def failure_def)

subsection \<open>The Node callback adapter\<close>

lemma liftOutcome_resolve:
  "p < fresh s \<Longrightarrow>
   liftOutcome (resolve p) error v s =
     (Inr (),
      (case objs s p of
         PromiseObj Unsettled \<Rightarrow>
           \<lparr>objs = (objs s)(fresh s := Plain [if loose_null error then (''value'', v) else (''error'', error)],
                           p := PromiseObj (Fulfilled (JRef (fresh s)))),
            fresh = Suc (fresh s)\<rparr>
       | _ \<Rightarrow> snd (alloc (Plain [if loose_null error then (''value'', v) else (''error'', error)]) s)))"
  by (auto simp: liftOutcome_def resolve_def success_def failure_def alloc_def
      split: obj.splits pstate.splits)

lemma liftOutcome_resolve_frame:
  assumes "p < fresh s"
  shows "fst (liftOutcome (resolve p) error v s) = Inr () \<and>
         fresh (snd (liftOutcome (resolve p) error v s)) = Suc (fresh s) \<and>
         (\<forall>r. r < fresh s \<and> (r \<noteq> p \<or> objs s p \<noteq> PromiseObj Unsettled) \<longrightarrow>
            objs (snd (liftOutcome (resolve p) error v s)) r = objs s r)"
  using assms
  by (auto simp: liftOutcome_resolve alloc_def split: obj.splits pstate.splits)

lemma run_fn_settled:
  "p < fresh s \<Longrightarrow> objs s p \<noteq> PromiseObj Unsettled \<Longrightarrow>
   fresh s \<le> fresh (snd (run_fn b (liftOutcome (resolve p)) s)) \<and>
   (\<forall>r. r < fresh s \<longrightarrow> objs (snd (run_fn b (liftOutcome (resolve p)) s)) r = objs s r)"
proof (induction b arbitrary: s)
  case Return
  then show ?case by simp
next
  case (Raise e)
  then show ?case by simp
next
  case (Invoke error v rest)
  let ?s1 = "snd (liftOutcome (resolve p) error v s)"
  note fr = liftOutcome_resolve_frame [OF Invoke.prems(1), of error v]
  have step: "run_fn (Invoke error v rest) (liftOutcome (resolve p)) s =
              run_fn rest (liftOutcome (resolve p)) ?s1"
    using fr by (cases "liftOutcome (resolve p) error v s") simp
  have p1: "p < fresh ?s1" using fr Invoke.prems(1) by simp
  have p2: "objs ?s1 p \<noteq> PromiseObj Unsettled" using fr Invoke.prems by simp
  from Invoke.IH [OF p1 p2] fr Invoke.prems show ?case
    unfolding step by auto
qed


lemma fromNodeCallback_unfold:
  "fromNodeCallback fn s =
     (case fn (liftOutcome (resolve (fresh s))) (snd (alloc (PromiseObj Unsettled) s)) of
        (Inl x, s2) \<Rightarrow> (JRef (fresh s), reject (fresh s) x s2)
      | (Inr u, s2) \<Rightarrow> (JRef (fresh s), s2))"
  by (simp add: fromNodeCallback_def new_Promise_def alloc_def)

lemma reject_settled: "objs s p \<noteq> PromiseObj Unsettled \<Longrightarrow> reject p x s = s"
  by (simp add: reject_def split: obj.splits pstate.splits)

lemma fromNodeCallback_Invoke:
  "fst (fromNodeCallback (run_fn (Invoke error v rest)) s) = JRef (fresh s) \<and>
   objs (snd (fromNodeCallback (run_fn (Invoke error v rest)) s)) (fresh s) =
     PromiseObj (Fulfilled (JRef (Suc (fresh s)))) \<and>
   objs (snd (fromNodeCallback (run_fn (Invoke error v rest)) s)) (Suc (fresh s)) =
     Plain [if loose_null error then (''value'', v) else (''error'', error)]"
proof -
  let ?p = "fresh s"
  let ?cb = "liftOutcome (resolve ?p)"
  let ?s1 = "snd (alloc (PromiseObj Unsettled) s)"
  let ?s2 = "snd (?cb error v ?s1)"
  let ?s3 = "snd (run_fn rest ?cb ?s2)"
  have p1: "?p < fresh ?s1" by (simp add: alloc_def)
  have s2: "?cb error v ?s1 =
      (Inr (), \<lparr>objs = (objs ?s1)(fresh ?s1 := Plain [if loose_null error then (''value'', v) else (''error'', error)],
                           ?p := PromiseObj (Fulfilled (JRef (fresh ?s1)))),
                fresh = Suc (fresh ?s1)\<rparr>)"
    using liftOutcome_resolve [OF p1, of error v] by (simp add: alloc_def)
  have f1: "fresh ?s1 = Suc ?p" by (simp add: alloc_def)
  have o2: "objs ?s2 ?p = PromiseObj (Fulfilled (JRef (Suc ?p)))"
    "objs ?s2 (Suc ?p) = Plain [if loose_null error then (''value'', v) else (''error'', error)]"
    "fresh ?s2 = Suc (Suc ?p)"
    unfolding s2 by (simp_all add: f1)
  have p2: "?p < fresh ?s2" "objs ?s2 ?p \<noteq> PromiseObj Unsettled" using o2 by simp_all
  from run_fn_settled [OF p2, of rest] o2
  have o3: "objs ?s3 ?p = PromiseObj (Fulfilled (JRef (Suc ?p)))"
    "objs ?s3 (Suc ?p) = Plain [if loose_null error then (''value'', v) else (''error'', error)]"
    by simp_all
  have step: "run_fn (Invoke error v rest) ?cb ?s1 = run_fn rest ?cb ?s2"
    using s2 by (cases "?cb error v ?s1") simp
  have "fromNodeCallback (run_fn (Invoke error v rest)) s = (JRef ?p, ?s3)"
  proof (cases "run_fn rest ?cb ?s2")
    case (Pair res s3)
    then have eq: "?s3 = s3" by simp
    show ?thesis
    proof (cases res)
      case (Inl x)
      have "reject ?p x s3 = s3" using o3(1) unfolding eq by (simp add: reject_settled)
      then show ?thesis unfolding fromNodeCallback_unfold step using Pair Inl by simp
    next
      case (Inr u)
      then show ?thesis unfolding fromNodeCallback_unfold step using Pair by simp
    qed
  qed
  then show ?thesis using o3 by simp
qed

text \<open>
  C1. The callback that \<open>fromNodeCallback\<close> hands to \<open>fn\<close> is
  \<open>liftOutcome (resolve p)\<close> for the new promise \<open>p\<close>. Invoked with \<open>(error, v)\<close>
  while \<open>p\<close> is unsettled, at any later time, it fulfils \<open>p\<close> with a new Failure
  holding \<open>error\<close> when \<open>error\<close> is neither null nor undefined (so also for 0, the
  empty string and false), and with a new Success holding \<open>v\<close> otherwise. Invoked on
  a settled promise it leaves the promise as it is. In particular, when \<open>fn\<close> invokes
  the callback during its run, the first invocation decides what the awaiter receives.
\<close>

theorem fromNodeCallback_first_invocation:
  "(p < fresh t \<and> objs t p = PromiseObj Unsettled \<longrightarrow>
      fst (liftOutcome (resolve p) error v t) = Inr () \<and>
      await (snd (liftOutcome (resolve p) error v t)) (JRef p) = Some (Inr (JRef (fresh t))) \<and>
      objs (snd (liftOutcome (resolve p) error v t)) (fresh t) =
        Plain [if loose_null error then (''value'', v) else (''error'', error)]) \<and>
   (q < fresh u \<and> objs u q = PromiseObj st \<and> st \<noteq> Unsettled \<longrightarrow>
      fst (liftOutcome (resolve q) error v u) = Inr () \<and>
      objs (snd (liftOutcome (resolve q) error v u)) q = PromiseObj st) \<and>
   fromNodeCallback fn s =
     (case fn (liftOutcome (resolve (fresh s))) (snd (alloc (PromiseObj Unsettled) s)) of
        (Inl x, s2) \<Rightarrow> (JRef (fresh s), reject (fresh s) x s2)
      | (Inr w, s2) \<Rightarrow> (JRef (fresh s), s2)) \<and>
   await (snd (fromNodeCallback (run_fn (Invoke error v rest)) s))
     (fst (fromNodeCallback (run_fn (Invoke error v rest)) s)) = Some (Inr (JRef (Suc (fresh s)))) \<and>
   objs (snd (fromNodeCallback (run_fn (Invoke error v rest)) s)) (Suc (fresh s)) =
     Plain [if loose_null error then (''value'', v) else (''error'', error)]"
proof -
  have a: "p < fresh t \<Longrightarrow> objs t p = PromiseObj Unsettled \<Longrightarrow>
      fst (liftOutcome (resolve p) error v t) = Inr () \<and>
      await (snd (liftOutcome (resolve p) error v t)) (JRef p) = Some (Inr (JRef (fresh t))) \<and>
      objs (snd (liftOutcome (resolve p) error v t)) (fresh t) =
        Plain [if loose_null error then (''value'', v) else (''error'', error)]"
    by (simp add: liftOutcome_resolve)
  have b: "q < fresh u \<Longrightarrow> objs u q = PromiseObj st \<Longrightarrow> st \<noteq> Unsettled \<Longrightarrow>
      fst (liftOutcome (resolve q) error v u) = Inr () \<and>
      objs (snd (liftOutcome (resolve q) error v u)) q = PromiseObj st"
    by (cases st) (simp_all add: liftOutcome_resolve alloc_def)
  from a b fromNodeCallback_unfold [of fn s] fromNodeCallback_Invoke [of error v rest s]
  show ?thesis by simp
qed

theorem fromNodeCallback_first_invocation_witness:
  "0 < fresh (snd (alloc (PromiseObj Unsettled) empty_store)) \<and>
   objs (snd (alloc (PromiseObj Unsettled) empty_store)) 0 = PromiseObj Unsettled \<and>
   await (snd (liftOutcome (resolve 0) (JNum 0) (JStr ''v'')
                 (snd (alloc (PromiseObj Unsettled) empty_store)))) (JRef 0) = Some (Inr (JRef 1)) \<and>
   objs (snd (liftOutcome (resolve 0) (JNum 0) (JStr ''v'')
                 (snd (alloc (PromiseObj Unsettled) empty_store)))) 1 = Plain [(''error'', JNum 0)] \<and>
   0 < fresh (snd (alloc (PromiseObj (Rejected TypeError)) empty_store)) \<and>
   objs (snd (alloc (PromiseObj (Rejected TypeError)) empty_store)) 0 = PromiseObj (Rejected TypeError) \<and>
   Rejected TypeError \<noteq> Unsettled \<and>
   objs (snd (liftOutcome (resolve 0) (JNum 0) (JStr ''v'')
                 (snd (alloc (PromiseObj (Rejected TypeError)) empty_store)))) 0 =
     PromiseObj (Rejected TypeError)"
  using fromNodeCallback_first_invocation
    [of 0 "snd (alloc (PromiseObj Unsettled) empty_store)" "JNum 0" "JStr ''v''"
        0 "snd (alloc (PromiseObj (Rejected TypeError)) empty_store)" "Rejected TypeError"]
  by (simp add: alloc_def empty_store_def loose_null_def)

text \<open>
  A second invocation does not change the outcome: here the callback is invoked with
  \<open>(null, 1)\<close> and then with the non-null error \<open>"late"\<close>, and the promise is
  fulfilled with the Success holding 1.
\<close>

theorem fromNodeCallback_second_invocation:
  "\<not> loose_null (JStr ''late'') \<and>
   await (snd (fromNodeCallback
       (run_fn (Invoke JNull (JNum 1) (Invoke (JStr ''late'') JUndefined Return))) empty_store))
     (fst (fromNodeCallback
       (run_fn (Invoke JNull (JNum 1) (Invoke (JStr ''late'') JUndefined Return))) empty_store)) =
     Some (Inr (JRef 1)) \<and>
   objs (snd (fromNodeCallback
       (run_fn (Invoke JNull (JNum 1) (Invoke (JStr ''late'') JUndefined Return))) empty_store)) 1 =
     Plain [(''value'', JNum 1)]"
  by (simp add: fromNodeCallback_def new_Promise_def alloc_def liftOutcome_def resolve_def
      success_def failure_def loose_null_def empty_store_def)



end
